theory Spec2Isabelle
  imports Main "HOL-Library.Sublist"
begin

section \<open>The App component of src/App.jsx\<close>

text \<open>
  The component is a set of React state cells and refs, changed by callbacks that run one
  at a time on the JavaScript event loop: the two transcription listeners, the
  click-through listener, the pause timer's callback and the click and drag handlers.
  A handler that awaits a backend call runs up to the \<^verbatim>\<open>await\<close>, and the rest of it
  runs when the call settles; other callbacks may run in between. The model keeps the
  handlers' names. A callback is a function from state to state; the part of a handler
  behind an \<^verbatim>\<open>await\<close> is a continuation kept in the state until a reply arrives.

  Two conventions. The component has rendered between two callbacks, so a handler reads
  the current value of a state cell where the source reads the variable of its closure;
  a value read before an \<^verbatim>\<open>await\<close> and used after it is stored in the continuation.
  Event payloads are strings, so \<^verbatim>\<open>if (text)\<close> is the test that the string is not
  empty.
\<close>

subsection \<open>Data\<close>

text \<open>A pending \<^verbatim>\<open>setTimeout\<close>: its handle, the time it is due, and the \<^verbatim>\<open>text\<close>
  its callback has captured (lines 57 to 63; no other timeout is ever scheduled).\<close>

record timeout =
  handle :: nat
  due :: nat
  captured :: string

text \<open>The backend commands passed to \<^verbatim>\<open>invoke\<close>. The two resource paths that
  \<^verbatim>\<open>start_live_transcription\<close> receives are handed through unread and are left out.\<close>

datatype command =
    Start_live_transcription
  | Stop_live_transcription
  | Call_gemini_api string
  | Toggle_clickthrough bool

text \<open>How an awaited promise settles: it resolves to a value (only the answer of
  \<^verbatim>\<open>call_gemini_api\<close> is read) or rejects with an error, printed as a string.\<close>

datatype reply = Resolved string | Rejected string

text \<open>The code behind each \<^verbatim>\<open>await\<close>, with the closure variables it still reads.\<close>

datatype continuation =
    Await_getResourcePaths
  | Await_start_live_transcription
  | Await_stop_live_transcription string
  | Await_call_gemini_api
  | Await_toggle_clickthrough bool

text \<open>What a statement raises. The one error that decides anything here is the
  \<^verbatim>\<open>ReferenceError\<close> for an identifier that the module does not bind.\<close>

datatype js_error = ReferenceError string

text \<open>
  The state cells (lines 19 to 36), the ref \<^verbatim>\<open>speechPauseTimer\<close> (line 31), and the
  part of the JavaScript runtime the callbacks act on: the clock in milliseconds, the
  pending timeouts in the order they were scheduled, the next timer handle, the
  continuations of the calls in flight, and the commands invoked so far. The cell
  \<^verbatim>\<open>generalQuery\<close> of the input field is left out: a prompt is the argument of
  \<^verbatim>\<open>handleAskGemini\<close>.
\<close>

record app =
  isRecording :: bool
  finalizedTranscript :: "string list"
  inProgressTranscript :: string
  aiResponse :: string
  status :: string
  clickThrough :: bool
  widgetOpen :: bool
  listenOpen :: bool
  activeTab :: string
  speechPauseTimer :: "nat option"
  clock :: nat
  timeouts :: "timeout list"
  next_handle :: nat
  awaiting :: "continuation list"
  invoked :: "command list"

definition initial :: app where
  "initial =
     \<lparr>isRecording = False, finalizedTranscript = [], inProgressTranscript = [],
      aiResponse = [], status = ''Ready.'', clickThrough = True, widgetOpen = True,
      listenOpen = False, activeTab = ''transcript'', speechPauseTimer = None,
      clock = 0, timeouts = [], next_handle = 1, awaiting = [], invoked = []\<rparr>"

subsection \<open>Timers and backend calls\<close>

text \<open>\<^verbatim>\<open>clearTimeout(id)\<close>: the timeout with that handle, if still pending, is dropped;
  null or the handle of a timeout that has fired is ignored.\<close>

definition clearTimeout :: "nat option \<Rightarrow> app \<Rightarrow> app" where
  "clearTimeout h s =
     (case h of
        None \<Rightarrow> s
      | Some i \<Rightarrow> s\<lparr>timeouts := filter (\<lambda>t. handle t \<noteq> i) (timeouts s)\<rparr>)"

text \<open>The callback of the pause timer (lines 57 to 63).\<close>

definition speech_pause_elapsed :: "string \<Rightarrow> app \<Rightarrow> app" where
  "speech_pause_elapsed text s =
     (if text \<noteq> [] then
        s\<lparr>finalizedTranscript := finalizedTranscript s @ [text],
          inProgressTranscript := []\<rparr>
      else s)"

text \<open>\<open>d\<close> milliseconds pass with no other event: every timeout due by then fires, in
  the order scheduled, and is pending no longer.\<close>

definition elapse :: "nat \<Rightarrow> app \<Rightarrow> app" where
  "elapse d s =
     (let t = clock s + d;
          fired = filter (\<lambda>x. due x \<le> t) (timeouts s);
          s1 = s\<lparr>clock := t, timeouts := filter (\<lambda>x. \<not> due x \<le> t) (timeouts s)\<rparr>
      in fold (\<lambda>x. speech_pause_elapsed (captured x)) fired s1)"

text \<open>\<^verbatim>\<open>await invoke(c, ...)\<close>: the command goes to the backend and the handler
  is suspended; \<^verbatim>\<open>await\<close> of another promise only suspends.\<close>

definition suspend :: "continuation \<Rightarrow> app \<Rightarrow> app" where
  "suspend k s = s\<lparr>awaiting := awaiting s @ [k]\<rparr>"

definition invoke :: "command \<Rightarrow> continuation \<Rightarrow> app \<Rightarrow> app" where
  "invoke c k s = suspend k (s\<lparr>invoked := invoked s @ [c]\<rparr>)"

definition error_status :: "string \<Rightarrow> string" where
  "error_status e = ''Error: '' @ e"

definition click_through_status :: "bool \<Rightarrow> string" where
  "click_through_status b = (if b then ''Window is click-through.'' else ''Window is interactive.'')"

subsection \<open>The listeners (lines 51 to 74 and 89 to 93)\<close>

definition on_new_transcription :: "string \<Rightarrow> app \<Rightarrow> app" where
  "on_new_transcription text s =
     (let s1 = clearTimeout (speechPauseTimer s) (s\<lparr>inProgressTranscript := text\<rparr>);
          h = next_handle s1
      in s1\<lparr>speechPauseTimer := Some h,
            timeouts := timeouts s1 @ [\<lparr>handle = h, due = clock s1 + 1500, captured = text\<rparr>],
            next_handle := Suc h\<rparr>)"

definition on_final_transcription :: "string \<Rightarrow> app \<Rightarrow> app" where
  "on_final_transcription text s =
     (let s1 = (if text \<noteq> [] then s\<lparr>finalizedTranscript := finalizedTranscript s @ [text]\<rparr>
                else s)
      in clearTimeout (speechPauseTimer s1) (s1\<lparr>inProgressTranscript := []\<rparr>))"

definition on_click_through_toggled :: "bool \<Rightarrow> app \<Rightarrow> app" where
  "on_click_through_toggled newState s =
     s\<lparr>clickThrough := newState, status := click_through_status newState\<rparr>"

subsection \<open>The handlers, up to their first await\<close>

text \<open>Lines 102 to 139. The start branch sets four cells and awaits
  \<^verbatim>\<open>getResourcePaths()\<close>; the stop branch awaits the backend first, and its
  continuation reads \<^verbatim>\<open>inProgressTranscript\<close> as it was at the click.\<close>

definition handleToggleRecording :: "app \<Rightarrow> app" where
  "handleToggleRecording s =
     (if \<not> isRecording s then
        suspend Await_getResourcePaths
          (s\<lparr>status := ''Recording...'', finalizedTranscript := [],
             inProgressTranscript := [], aiResponse := []\<rparr>)
      else
        invoke Stop_live_transcription
          (Await_stop_live_transcription (inProgressTranscript s)) s)"

definition gemini_format_hint :: string where
  "gemini_format_hint =
     [CHR 0x0A, CHR 0x0A] @
     ''IMPORTANT: Format your response using Markdown with line breaks, bullet points, and code blocks when relevant.''"

text \<open>Lines 142 to 160.\<close>

definition handleAskGemini :: "string \<Rightarrow> app \<Rightarrow> app" where
  "handleAskGemini prompt s =
     (if prompt = [] then s
      else invoke (Call_gemini_api (prompt @ gemini_format_hint)) Await_call_gemini_api
             (s\<lparr>status := ''Thinking...''\<rparr>))"

text \<open>Lines 180 to 189.\<close>

definition handleToggleClickThrough :: "app \<Rightarrow> app" where
  "handleToggleClickThrough s =
     (let newState = \<not> clickThrough s
      in invoke (Toggle_clickthrough newState) (Await_toggle_clickthrough newState) s)"

text \<open>
  Lines 195 to 215 and 218 to 231, the handlers of mouse down and mouse up on the widget
  bar. Both use \<^verbatim>\<open>prevClickThroughRef\<close> (lines 201, 221 and 229). App.jsx never
  declares it: line 38 carries its comment ("Ref to remember previous click-through state
  during drag") and line 39 declares \<^verbatim>\<open>appWindow\<close>. The file is a module, so the
  identifier is unresolvable and each use raises \<^verbatim>\<open>ReferenceError\<close>.

  Mouse down: line 201 is the first statement of the \<^verbatim>\<open>try\<close> block and raises, so
  the \<^verbatim>\<open>invoke\<close> of line 205, the writes of lines 206 and 207 and the call of line
  211 never run; the \<^verbatim>\<open>catch\<close> of lines 212 to 214 logs the error. No cell changes and
  nothing is invoked.
\<close>

definition startDragWithClickThroughHandling :: "app \<Rightarrow> app" where
  "startDragWithClickThroughHandling s = s"

text \<open>
  Mouse up: the test of line 221 raises, so lines 222 to 224 never run and the
  \<^verbatim>\<open>catch\<close> of lines 226 and 227 logs the error; the \<^verbatim>\<open>finally\<close> block then runs
  line 229, which raises again, outside any \<^verbatim>\<open>try\<close>: the handler ends with that
  error (its promise rejects), having changed no cell and invoked nothing.
\<close>

definition stopDragRestoreClickThrough :: "app \<Rightarrow> js_error + app" where
  "stopDragRestoreClickThrough s = Inl (ReferenceError ''prevClickThroughRef'')"

text \<open>
  The two Listen buttons call the recording handler from an inline \<^verbatim>\<open>onClick\<close>. The
  handler is not awaited: it runs up to its first await, and the rest of the
  \<^verbatim>\<open>onClick\<close> follows at once. The button of the widget bar (lines 281 to 295) then
  flips \<^verbatim>\<open>listenOpen\<close> and, when the click started a session, opens the widget on the
  transcript tab; the button of the panel (line 326) selects the transcript tab.
\<close>

definition listen_button_onClick :: "app \<Rightarrow> app" where
  "listen_button_onClick s =
     (let s1 = handleToggleRecording s;
          s2 = s1\<lparr>listenOpen := \<not> listenOpen s1\<rparr>
      in if \<not> isRecording s then s2\<lparr>widgetOpen := True, activeTab := ''transcript''\<rparr>
         else s2)"

definition panel_listen_onClick :: "app \<Rightarrow> app" where
  "panel_listen_onClick s = (handleToggleRecording s)\<lparr>activeTab := ''transcript''\<rparr>"

subsection \<open>The handlers, after an await\<close>

fun resume :: "continuation \<Rightarrow> reply \<Rightarrow> app \<Rightarrow> app" where
  "resume Await_getResourcePaths (Resolved v) s =
     invoke Start_live_transcription Await_start_live_transcription s"
| "resume Await_getResourcePaths (Rejected e) s = s\<lparr>status := error_status e\<rparr>"
| "resume Await_start_live_transcription (Resolved v) s = s\<lparr>isRecording := True\<rparr>"
| "resume Await_start_live_transcription (Rejected e) s = s\<lparr>status := error_status e\<rparr>"
| "resume (Await_stop_live_transcription inProgress) (Resolved v) s =
     (let s1 = (if inProgress \<noteq> [] then
                  s\<lparr>finalizedTranscript := finalizedTranscript s @ [inProgress]\<rparr>
                else s)
      in s1\<lparr>inProgressTranscript := [], status := ''Ready.'', isRecording := False\<rparr>)"
| "resume (Await_stop_live_transcription inProgress) (Rejected e) s =
     s\<lparr>status := error_status e\<rparr>"
| "resume Await_call_gemini_api (Resolved response) s =
     s\<lparr>aiResponse := response, activeTab := ''ai'', status := ''Ready.'', widgetOpen := True\<rparr>"
| "resume Await_call_gemini_api (Rejected e) s =
     s\<lparr>aiResponse := error_status e, activeTab := ''ai'', status := ''Ready.'',
       widgetOpen := True\<rparr>"
| "resume (Await_toggle_clickthrough newState) (Resolved v) s =
     s\<lparr>clickThrough := newState, status := click_through_status newState\<rparr>"
| "resume (Await_toggle_clickthrough newState) (Rejected e) s = s"

text \<open>The \<open>i\<close>-th call in flight settles with reply \<open>r\<close>.\<close>

definition settle :: "nat \<Rightarrow> reply \<Rightarrow> app \<Rightarrow> app" where
  "settle i r s =
     (if i < length (awaiting s) then
        resume (awaiting s ! i) r
          (s\<lparr>awaiting := take i (awaiting s) @ drop (Suc i) (awaiting s)\<rparr>)
      else s)"

subsection \<open>The rendered transcript (line 192)\<close>

text \<open>\<^verbatim>\<open>Array.prototype.join('\n')\<close> on an array of strings.\<close>

definition newline :: string where
  "newline = [CHR 0x0A]"

fun join_lines :: "string list \<Rightarrow> string" where
  "join_lines [] = []"
| "join_lines [x] = x"
| "join_lines (x # y # ys) = x @ newline @ join_lines (y # ys)"

definition transcript :: "app \<Rightarrow> string" where
  "transcript s = join_lines (finalizedTranscript s @ [inProgressTranscript s])"

subsection \<open>Runs\<close>

text \<open>What can happen to the component: the backend's three events, idle time, the clicks
  that reach a handler with an await, the drag gesture, and the settling of a call. The
  buttons that only select a tab or show and hide the widget are not events of the model.\<close>

datatype event =
    New_transcription string
  | Final_transcription string
  | Click_through_toggled bool
  | Elapse nat
  | Click_listen_bar
  | Click_listen_panel
  | Ask_gemini string
  | Click_toggle_click_through
  | Drag_start
  | Drag_stop
  | Settle nat reply

fun step :: "event \<Rightarrow> app \<Rightarrow> app" where
  "step (New_transcription text) s = on_new_transcription text s"
| "step (Final_transcription text) s = on_final_transcription text s"
| "step (Click_through_toggled b) s = on_click_through_toggled b s"
| "step (Elapse d) s = elapse d s"
| "step Click_listen_bar s = listen_button_onClick s"
| "step Click_listen_panel s = panel_listen_onClick s"
| "step (Ask_gemini prompt) s = handleAskGemini prompt s"
| "step Click_toggle_click_through s = handleToggleClickThrough s"
| "step Drag_start s = startDragWithClickThroughHandling s"
| "step Drag_stop s =
     (case stopDragRestoreClickThrough s of Inl err \<Rightarrow> s | Inr s' \<Rightarrow> s')"
| "step (Settle i r) s = settle i r s"

definition run :: "event list \<Rightarrow> app \<Rightarrow> app" where
  "run es s = fold step es s"

text \<open>A handler whose awaited calls settle, with the replies \<open>rs\<close> in turn, before any
  other callback runs. The handler's call, if it makes one, is the newest in flight.\<close>

definition uninterrupted :: "(app \<Rightarrow> app) \<Rightarrow> reply list \<Rightarrow> app \<Rightarrow> app" where
  "uninterrupted h rs s = fold (settle (length (awaiting s))) rs (h s)"

text \<open>The timer discipline of lines 56 and 57: at most one timeout is pending, and
  \<^verbatim>\<open>speechPauseTimer.current\<close> holds its handle.\<close>

definition timer_ok :: "app \<Rightarrow> bool" where
  "timer_ok s \<longleftrightarrow>
     length (timeouts s) \<le> 1 \<and> (\<forall>t \<in> set (timeouts s). speechPauseTimer s = Some (handle t))"

subsection \<open>Sessions and gestures\<close>

text \<open>The user starts a recording session and every call of the handler succeeds; the
  user stops it and the backend agrees. No other call is in flight.\<close>

definition start_session :: "event list" where
  "start_session = [Click_listen_bar, Settle 0 (Resolved []), Settle 0 (Resolved [])]"

definition stop_session :: "event list" where
  "stop_session = [Click_listen_bar, Settle 0 (Resolved [])]"

text \<open>A session in which the backend sends one interim text and the user stops 100 ms
  later.\<close>

definition hello_then_stop :: "event list" where
  "hello_then_stop = start_session @ [New_transcription ''hello'', Elapse 100] @ stop_session"

text \<open>The event that starts a session: a click on either Listen button while not
  recording runs the branch of lines 104 to 117, which empties the transcript.\<close>

definition reset_is :: "event \<Rightarrow> app \<Rightarrow> bool" where
  "reset_is e s \<longleftrightarrow> (e = Click_listen_bar \<or> e = Click_listen_panel) \<and> \<not> isRecording s"

fun no_reset :: "event list \<Rightarrow> app \<Rightarrow> bool" where
  "no_reset [] s = True"
| "no_reset (e # es) s = (\<not> reset_is e s \<and> no_reset es (step e s))"

text \<open>A session's traffic: interim texts revised and confirmed by a final event, one
  committed by the pause timer, empty payloads, and a stop while a text is in progress.\<close>

definition busy_session :: "event list" where
  "busy_session =
     [New_transcription ''the quick'', Elapse 200, New_transcription ''the quick brown fox'',
      Elapse 10, Final_transcription ''the quick brown fox'', New_transcription ''jumps'',
      Elapse 1500, New_transcription [], Final_transcription [], New_transcription ''over'',
      Click_listen_panel, Elapse 20, Settle 0 (Resolved [])]"

text \<open>The user asks a question and gets an answer; the user has dictated one line and
  stopped.\<close>

definition asked :: "event list" where
  "asked = [Ask_gemini ''what is a monad'', Settle 0 (Resolved ''a monoid'')]"

definition dictated :: app where
  "dictated = run (start_session @ [Final_transcription ''first line''] @ stop_session) initial"

section \<open>Properties of the timer and of idle time\<close>

lemma fold_speech_pause_finalized:
  "finalizedTranscript (fold (\<lambda>x. speech_pause_elapsed (captured x)) ts s) =
     finalizedTranscript s @ filter (\<lambda>x. x \<noteq> []) (map captured ts)"
  by (induction ts arbitrary: s) (simp_all add: speech_pause_elapsed_def)

lemma fold_speech_pause_timeouts:
  "timeouts (fold (\<lambda>x. speech_pause_elapsed (captured x)) ts s) = timeouts s"
  by (induction ts arbitrary: s) (simp_all add: speech_pause_elapsed_def)

lemma fold_speech_pause_timer:
  "speechPauseTimer (fold (\<lambda>x. speech_pause_elapsed (captured x)) ts s) = speechPauseTimer s"
  by (induction ts arbitrary: s) (simp_all add: speech_pause_elapsed_def)

lemma fold_speech_pause_clock:
  "clock (fold (\<lambda>x. speech_pause_elapsed (captured x)) ts s) = clock s"
  by (induction ts arbitrary: s) (simp_all add: speech_pause_elapsed_def)

lemma elapse_finalized:
  "finalizedTranscript (elapse d s) =
     finalizedTranscript s @
     filter (\<lambda>x. x \<noteq> []) (map captured (filter (\<lambda>x. due x \<le> clock s + d) (timeouts s)))"
  by (simp add: elapse_def Let_def fold_speech_pause_finalized)

lemma elapse_timeouts:
  "timeouts (elapse d s) = filter (\<lambda>x. \<not> due x \<le> clock s + d) (timeouts s)"
  by (simp add: elapse_def Let_def fold_speech_pause_timeouts)

lemma elapse_timer: "speechPauseTimer (elapse d s) = speechPauseTimer s"
  by (simp add: elapse_def Let_def fold_speech_pause_timer)

lemma elapse_clock: "clock (elapse d s) = clock s + d"
  by (simp add: elapse_def Let_def fold_speech_pause_clock)

lemma elapse_idle: "timeouts s = [] \<Longrightarrow> elapse d s = s\<lparr>clock := clock s + d\<rparr>"
  by (simp add: elapse_def)

lemma run_elapse_idle:
  "timeouts s = [] \<Longrightarrow> run (map Elapse ds) s = s\<lparr>clock := clock s + sum_list ds\<rparr>"
proof (induction ds arbitrary: s)
  case Nil
  then show ?case by (simp add: run_def)
next
  case (Cons d ds)
  have "run (map Elapse (d # ds)) s = run (map Elapse ds) (elapse d s)"
    by (simp add: run_def)
  also have "\<dots> = run (map Elapse ds) (s\<lparr>clock := clock s + d\<rparr>)"
    using Cons.prems by (simp add: elapse_idle)
  also have "\<dots> = s\<lparr>clock := clock s + d + sum_list ds\<rparr>"
    using Cons.prems by (simp add: Cons.IH)
  finally show ?case by (simp add: add.assoc)
qed

lemma resume_timeouts: "timeouts (resume k r s) = timeouts s"
  by (cases "(k, r, s)" rule: resume.cases) (simp_all add: invoke_def suspend_def Let_def)

lemma resume_timer: "speechPauseTimer (resume k r s) = speechPauseTimer s"
  by (cases "(k, r, s)" rule: resume.cases) (simp_all add: invoke_def suspend_def Let_def)

lemma timer_ok_cong:
  "timeouts s' = timeouts s \<Longrightarrow> speechPauseTimer s' = speechPauseTimer s \<Longrightarrow>
   timer_ok s \<Longrightarrow> timer_ok s'"
  by (simp add: timer_ok_def)

lemma clearTimeout_current:
  "timer_ok s \<Longrightarrow> timeouts (clearTimeout (speechPauseTimer s) s) = []"
  by (cases "timeouts s") (auto simp: timer_ok_def clearTimeout_def split: option.splits)

lemma timer_ok_initial: "timer_ok initial"
  by (simp add: timer_ok_def initial_def)

lemma on_new_transcription_timeouts:
  "timer_ok s \<Longrightarrow>
   timeouts (on_new_transcription text s) =
     [\<lparr>handle = next_handle s, due = clock s + 1500, captured = text\<rparr>]"
  by (cases "timeouts s")
     (auto simp: on_new_transcription_def timer_ok_def clearTimeout_def Let_def split: option.splits)

lemma on_final_transcription_timeouts:
  "timer_ok s \<Longrightarrow> timeouts (on_final_transcription text s) = []"
  by (cases "timeouts s")
     (auto simp: on_final_transcription_def timer_ok_def clearTimeout_def Let_def split: option.splits)

lemma timer_ok_step: "timer_ok s \<Longrightarrow> timer_ok (step e s)"
proof (cases e)
  case (New_transcription u)
  assume ok: "timer_ok s"
  have "speechPauseTimer (on_new_transcription u s) = Some (next_handle s)"
    by (simp add: on_new_transcription_def clearTimeout_def Let_def split: option.splits)
  with on_new_transcription_timeouts [OF ok, of u] New_transcription show ?thesis
    by (simp add: timer_ok_def)
next
  case (Final_transcription u)
  assume ok: "timer_ok s"
  with on_final_transcription_timeouts [OF ok, of u] Final_transcription show ?thesis
    by (simp add: timer_ok_def)
next
  case (Elapse d)
  assume "timer_ok s"
  then have "timer_ok (elapse d s)"
    unfolding timer_ok_def elapse_timeouts elapse_timer
    by (cases "timeouts s") auto
  with Elapse show ?thesis by simp
next
  case (Settle i r)
  assume "timer_ok s"
  then show ?thesis using Settle
    by (auto simp: settle_def resume_timeouts resume_timer elim!: timer_ok_cong [rotated 2])
qed (auto simp: timer_ok_def on_click_through_toggled_def handleToggleRecording_def
       listen_button_onClick_def panel_listen_onClick_def
       handleAskGemini_def handleToggleClickThrough_def invoke_def suspend_def Let_def
       startDragWithClickThroughHandling_def stopDragRestoreClickThrough_def)

lemma timer_ok_run: "timer_ok s \<Longrightarrow> timer_ok (run es s)"
  unfolding run_def by (induction es arbitrary: s) (simp_all add: timer_ok_step)

lemma timer_ok_reachable: "timer_ok (run es initial)"
  by (rule timer_ok_run [OF timer_ok_initial])

lemma on_final_transcription_finalized:
  "finalizedTranscript (on_final_transcription u s) =
     (if u \<noteq> [] then finalizedTranscript s @ [u] else finalizedTranscript s)"
  by (simp add: on_final_transcription_def clearTimeout_def Let_def split: option.splits)

lemma on_final_transcription_inProgress:
  "inProgressTranscript (on_final_transcription u s) = []"
  by (simp add: on_final_transcription_def clearTimeout_def Let_def split: option.splits)

lemma on_new_transcription_finalized:
  "finalizedTranscript (on_new_transcription u s) = finalizedTranscript s"
  by (simp add: on_new_transcription_def clearTimeout_def Let_def split: option.splits)

lemma on_new_transcription_inProgress:
  "inProgressTranscript (on_new_transcription u s) = u"
  by (simp add: on_new_transcription_def clearTimeout_def Let_def split: option.splits)

lemma on_new_transcription_clock:
  "clock (on_new_transcription u s) = clock s"
  by (simp add: on_new_transcription_def clearTimeout_def Let_def split: option.splits)

lemma join_lines_snoc:
  "join_lines (xs @ [y]) = (if xs = [] then y else join_lines xs @ newline @ y)"
  by (induction xs rule: join_lines.induct) simp_all

lemmas scenario_defs = start_session_def stop_session_def hello_then_stop_def run_def initial_def
  listen_button_onClick_def panel_listen_onClick_def Let_def handleToggleRecording_def settle_def suspend_def invoke_def on_new_transcription_def
  on_final_transcription_def clearTimeout_def elapse_def speech_pause_elapsed_def error_status_def

section \<open>The stop and start paths and the pause timer\<close>

text \<open>Neither branch of the recording handler, nor any of its continuations (by
  \<open>resume_timeouts\<close>), touches the pending timeouts; and a stop that the backend
  accepts, with nothing in between, moves a non-empty in-progress line to the end of the
  finalized transcript.\<close>

lemma handleToggleRecording_timeouts:
  "timeouts (handleToggleRecording s) = timeouts s"
  by (simp add: handleToggleRecording_def invoke_def suspend_def)

lemma stop_flushes_in_progress:
  "isRecording s \<Longrightarrow>
   uninterrupted handleToggleRecording [Resolved v] s =
     s\<lparr>finalizedTranscript :=
          (if inProgressTranscript s \<noteq> [] then finalizedTranscript s @ [inProgressTranscript s]
           else finalizedTranscript s),
       inProgressTranscript := [], status := ''Ready.'', isRecording := False,
       invoked := invoked s @ [Stop_live_transcription]\<rparr>"
  by (simp add: uninterrupted_def settle_def handleToggleRecording_def invoke_def suspend_def)

text \<open>
  C1. The claim: when the user stops recording with a non-empty in-progress line, the line
  is appended to the finalized transcript exactly once and the in-progress line is
  cleared, and the pending pause timer is cancelled first, so that no callback firing
  late can append the text again. In the code the stop branch (lines 124 to 133) appends
  the line and clears it, and never calls \<^verbatim>\<open>clearTimeout\<close>: after one interim text
  "hello" and a stop 100 ms later the transcript is ["hello"], the timeout that captured
  "hello" is still pending, and once the 1500 ms are over the transcript is
  ["hello", "hello"].
\<close>

theorem stop_then_timer_appends_twice:
  "finalizedTranscript (run hello_then_stop initial) = [''hello''] \<and>
   inProgressTranscript (run hello_then_stop initial) = [] \<and>
   \<not> isRecording (run hello_then_stop initial) \<and>
   map captured (timeouts (run hello_then_stop initial)) = [''hello''] \<and>
   finalizedTranscript (run (hello_then_stop @ [Elapse 1400]) initial) = [''hello'', ''hello'']"
  by (simp add: scenario_defs)

text \<open>
  C2. The claim: after a session is started the finalized transcript is empty, the
  in-progress line is empty and no pause timer is pending, so that a timer of the session
  before can never fire into the new one. In the code the start branch (lines 104 to 117)
  empties both cells and never calls \<^verbatim>\<open>clearTimeout\<close>: when the user starts again
  200 ms after the interim text "hello", its timeout is still pending after the click,
  and 1300 ms later the new session, now recording, shows the line "hello" of the old
  one.
\<close>

theorem timer_fires_into_next_session:
  "finalizedTranscript
     (run (hello_then_stop @ [Elapse 100, Click_listen_bar]) initial) = [] \<and>
   inProgressTranscript
     (run (hello_then_stop @ [Elapse 100, Click_listen_bar]) initial) = [] \<and>
   map captured
     (timeouts (run (hello_then_stop @ [Elapse 100, Click_listen_bar]) initial)) =
     [''hello''] \<and>
   isRecording
     (run (hello_then_stop @ [Elapse 100] @ start_session @ [Elapse 1300]) initial) \<and>
   finalizedTranscript
     (run (hello_then_stop @ [Elapse 100] @ start_session @ [Elapse 1300]) initial) =
     [''hello'']"
  by (simp add: scenario_defs)

section \<open>Final events\<close>

text \<open>
  C4. A final event with non-empty text, in any state that keeps the timer discipline
  (every state the component can reach does, by \<open>timer_ok_reachable\<close>), appends exactly
  that one entry to the finalized transcript, clears the in-progress line and leaves no
  pause timer pending; however much idle time follows, nothing more is committed.
\<close>

theorem on_final_commits_once:
  assumes "timer_ok s" and "u \<noteq> []"
  shows "finalizedTranscript (on_final_transcription u s) = finalizedTranscript s @ [u] \<and>
         inProgressTranscript (on_final_transcription u s) = [] \<and>
         timeouts (on_final_transcription u s) = [] \<and>
         (\<forall>ds. finalizedTranscript (run (map Elapse ds) (on_final_transcription u s)) =
                 finalizedTranscript s @ [u])"
proof -
  have t: "timeouts (on_final_transcription u s) = []"
    by (rule on_final_transcription_timeouts [OF assms(1)])
  have f: "finalizedTranscript (on_final_transcription u s) = finalizedTranscript s @ [u]"
    using assms(2) by (simp add: on_final_transcription_finalized)
  show ?thesis using t f by (simp add: run_elapse_idle on_final_transcription_inProgress)
qed

theorem on_final_commits_once_witness:
  "timer_ok (on_new_transcription ''hello'' initial) \<and> ''hello world'' \<noteq> [] \<and>
   map captured (timeouts (on_new_transcription ''hello'' initial)) = [''hello''] \<and>
   timeouts (on_final_transcription ''hello world'' (on_new_transcription ''hello'' initial)) = [] \<and>
   finalizedTranscript (run (map Elapse [1500, 1500])
      (on_final_transcription ''hello world'' (on_new_transcription ''hello'' initial))) =
     [''hello world'']"
proof -
  have ok: "timer_ok (on_new_transcription ''hello'' initial)"
    by (simp add: timer_ok_def scenario_defs)
  have ne: "''hello world'' \<noteq> []" by simp
  from on_final_commits_once [OF ok ne] ok show ?thesis
    by (simp add: scenario_defs)
qed

section \<open>The rendered transcript\<close>

text \<open>
  C5, as amended. The displayed transcript is the finalized lines joined in order with
  the in-progress line appended as one more line: with no finalized line it is the
  in-progress line alone, and otherwise it is the joined finalized lines, a line break,
  and the in-progress line. The last line is kept when it is empty: the transcript then
  ends with the line break.
\<close>

theorem transcript_lines:
  "transcript s =
     (if finalizedTranscript s = [] then inProgressTranscript s
      else join_lines (finalizedTranscript s) @ newline @ inProgressTranscript s)"
  by (simp add: transcript_def join_lines_snoc)

theorem transcript_lines_witness:
  "finalizedTranscript (run [Final_transcription ''a'', New_transcription ''b''] initial) \<noteq> [] \<and>
   transcript (run [Final_transcription ''a'', New_transcription ''b''] initial) =
     ''a'' @ newline @ ''b''"
  using transcript_lines [of "run [Final_transcription ''a'', New_transcription ''b''] initial"]
  by (simp add: scenario_defs)

text \<open>C5 as stated fails: with the one finalized line "a" and an empty in-progress line
  the transcript is "a" followed by a line break, not the joined finalized lines.\<close>

theorem transcript_counterexample:
  "inProgressTranscript (run [Final_transcription ''a''] initial) = [] \<and>
   join_lines (finalizedTranscript (run [Final_transcription ''a''] initial)) = ''a'' \<and>
   transcript (run [Final_transcription ''a''] initial) = ''a'' @ newline \<and>
   transcript (run [Final_transcription ''a''] initial) \<noteq>
     join_lines (finalizedTranscript (run [Final_transcription ''a''] initial))"
  by (simp add: scenario_defs transcript_def newline_def)

section \<open>The pause timer's callback\<close>

lemma fold_speech_pause_inProgress:
  "inProgressTranscript (fold (\<lambda>x. speech_pause_elapsed (captured x)) ts s) =
     (if filter (\<lambda>x. x \<noteq> []) (map captured ts) = [] then inProgressTranscript s else [])"
  by (induction ts arbitrary: s) (simp_all add: speech_pause_elapsed_def)

lemma elapse_inProgress:
  "inProgressTranscript (elapse d s) =
     (if filter (\<lambda>x. x \<noteq> []) (map captured (filter (\<lambda>x. due x \<le> clock s + d) (timeouts s))) = []
      then inProgressTranscript s else [])"
  by (simp add: elapse_def Let_def fold_speech_pause_inProgress)

lemma run_elapse_nothing_to_commit:
  "\<forall>t \<in> set (timeouts s). captured t = [] \<Longrightarrow>
   finalizedTranscript (run (map Elapse ds) s) = finalizedTranscript s"
proof (induction ds arbitrary: s)
  case Nil
  then show ?case by (simp add: run_def)
next
  case (Cons d ds)
  have step: "run (map Elapse (d # ds)) s = run (map Elapse ds) (elapse d s)"
    by (simp add: run_def)
  have keep: "\<forall>t \<in> set (timeouts (elapse d s)). captured t = []"
    using Cons.prems by (simp add: elapse_timeouts)
  have "filter (\<lambda>x. x \<noteq> []) (map captured (filter (\<lambda>x. due x \<le> clock s + d) (timeouts s))) = []"
    using Cons.prems by (simp add: filter_empty_conv)
  then have "finalizedTranscript (elapse d s) = finalizedTranscript s"
    by (simp add: elapse_finalized)
  with Cons.IH [OF keep] step show ?case by simp
qed

lemma initial_finalized: "finalizedTranscript initial = []"
  by (simp add: initial_def)

text \<open>
  What holds of the pause timer when nothing but time follows an interim event: the
  callback applied to the current in-progress line appends it exactly when it is not
  empty and leaves the line empty; and after an interim event with non-empty text, in a
  state that keeps the timer discipline, the text stays in progress for 1500 ms and is
  then moved into the finalized transcript exactly once, however much idle time follows.
\<close>

lemma fresh_interim_moves_once:
  "finalizedTranscript (speech_pause_elapsed (inProgressTranscript s) s) =
     (if inProgressTranscript s \<noteq> [] then finalizedTranscript s @ [inProgressTranscript s]
      else finalizedTranscript s) \<and>
   inProgressTranscript (speech_pause_elapsed (inProgressTranscript s) s) = [] \<and>
   (timer_ok s \<and> u \<noteq> [] \<longrightarrow>
      (\<forall>d<1500. finalizedTranscript (elapse d (on_new_transcription u s)) = finalizedTranscript s \<and>
                 inProgressTranscript (elapse d (on_new_transcription u s)) = u) \<and>
      (\<forall>d\<ge>1500. \<forall>ds.
         finalizedTranscript (run (map Elapse ds) (elapse d (on_new_transcription u s))) =
           finalizedTranscript s @ [u] \<and>
         inProgressTranscript (run (map Elapse ds) (elapse d (on_new_transcription u s))) = []))"
proof (intro conjI impI allI)
  show "finalizedTranscript (speech_pause_elapsed (inProgressTranscript s) s) =
     (if inProgressTranscript s \<noteq> [] then finalizedTranscript s @ [inProgressTranscript s]
      else finalizedTranscript s)"
    by (simp add: speech_pause_elapsed_def)
  show "inProgressTranscript (speech_pause_elapsed (inProgressTranscript s) s) = []"
    by (simp add: speech_pause_elapsed_def)
next
  fix d :: nat
  assume h: "timer_ok s \<and> u \<noteq> []" and d: "d < 1500"
  from h have t: "timeouts (on_new_transcription u s) =
      [\<lparr>handle = next_handle s, due = clock s + 1500, captured = u\<rparr>]"
    by (simp add: on_new_transcription_timeouts)
  show "finalizedTranscript (elapse d (on_new_transcription u s)) = finalizedTranscript s"
    using d by (simp add: elapse_finalized t on_new_transcription_clock on_new_transcription_finalized)
  show "inProgressTranscript (elapse d (on_new_transcription u s)) = u"
    using d by (simp add: elapse_inProgress t on_new_transcription_clock on_new_transcription_inProgress)
next
  fix d :: nat and ds :: "nat list"
  assume h: "timer_ok s \<and> u \<noteq> []" and d: "1500 \<le> d"
  from h have t: "timeouts (on_new_transcription u s) =
      [\<lparr>handle = next_handle s, due = clock s + 1500, captured = u\<rparr>]"
    by (simp add: on_new_transcription_timeouts)
  have idle: "timeouts (elapse d (on_new_transcription u s)) = []"
    using d by (simp add: elapse_timeouts t on_new_transcription_clock)
  have f: "finalizedTranscript (elapse d (on_new_transcription u s)) = finalizedTranscript s @ [u]"
    using d h by (simp add: elapse_finalized t on_new_transcription_clock on_new_transcription_finalized)
  have p: "inProgressTranscript (elapse d (on_new_transcription u s)) = []"
    using d h by (simp add: elapse_inProgress t on_new_transcription_clock)
  show "finalizedTranscript (run (map Elapse ds) (elapse d (on_new_transcription u s))) =
           finalizedTranscript s @ [u]"
    by (simp add: run_elapse_idle [OF idle] f)
  show "inProgressTranscript (run (map Elapse ds) (elapse d (on_new_transcription u s))) = []"
    by (simp add: run_elapse_idle [OF idle] p)
qed

lemma fresh_interim_moves_once_example:
  "timer_ok initial \<and> ''testing one two'' \<noteq> [] \<and> (1499::nat) < 1500 \<and> (1500::nat) \<le> 1500 \<and>
   finalizedTranscript (elapse 1499 (on_new_transcription ''testing one two'' initial)) = [] \<and>
   inProgressTranscript (elapse 1499 (on_new_transcription ''testing one two'' initial)) =
     ''testing one two'' \<and>
   finalizedTranscript (run (map Elapse [1500, 60000])
     (elapse 1500 (on_new_transcription ''testing one two'' initial))) = [''testing one two''] \<and>
   inProgressTranscript (run (map Elapse [1500, 60000])
     (elapse 1500 (on_new_transcription ''testing one two'' initial))) = []"
  using fresh_interim_moves_once [of initial "''testing one two''"] timer_ok_initial
  by (simp del: list.map add: initial_finalized)

text \<open>
  C3. The claim: the pause timer's callback appends the text it captured only if that
  text is still the in-progress line and is not empty, so that an interim text followed
  by no further interim or final event within 1500 ms is moved into the finalized
  transcript exactly once. In the code the callback tests the captured text alone (line
  59), and the stop branch leaves the timer pending: after the interim text "hello" and a
  stop 100 ms later, with no interim or final event in between, the in-progress line is
  empty and "hello" is already finalized, yet the pending callback has captured "hello"
  and appends it again, when applied and when the 1500 ms are over.
\<close>

theorem stale_pause_callback_appends_again:
  "map captured (timeouts (run hello_then_stop initial)) = [''hello''] \<and>
   inProgressTranscript (run hello_then_stop initial) = [] \<and>
   finalizedTranscript (run hello_then_stop initial) = [''hello''] \<and>
   finalizedTranscript (speech_pause_elapsed ''hello'' (run hello_then_stop initial)) =
     [''hello'', ''hello''] \<and>
   finalizedTranscript (elapse 1400 (run hello_then_stop initial)) = [''hello'', ''hello'']"
  by (simp add: scenario_defs)

section \<open>Events with empty text\<close>

text \<open>
  C6, as amended. An interim or final event whose text is empty appends nothing to the
  finalized transcript, neither at once nor through the pause timer however much idle
  time follows. It does change the rest of the state: the in-progress line is emptied,
  and in a state that keeps the timer discipline the pending pause timer is cancelled;
  an interim event schedules a new one, which has captured the empty text.
\<close>

theorem empty_payload_appends_nothing:
  "finalizedTranscript (on_new_transcription [] s) = finalizedTranscript s \<and>
   inProgressTranscript (on_new_transcription [] s) = [] \<and>
   finalizedTranscript (on_final_transcription [] s) = finalizedTranscript s \<and>
   inProgressTranscript (on_final_transcription [] s) = [] \<and>
   (timer_ok s \<longrightarrow>
      map captured (timeouts (on_new_transcription [] s)) = [[]] \<and>
      timeouts (on_final_transcription [] s) = [] \<and>
      (\<forall>ds. finalizedTranscript (run (map Elapse ds) (on_new_transcription [] s)) =
              finalizedTranscript s) \<and>
      (\<forall>ds. finalizedTranscript (run (map Elapse ds) (on_final_transcription [] s)) =
              finalizedTranscript s))"
proof (intro conjI impI allI)
  fix ds :: "nat list"
  assume ok: "timer_ok s"
  have "\<forall>t \<in> set (timeouts (on_new_transcription [] s)). captured t = []"
    by (simp add: on_new_transcription_timeouts [OF ok])
  then show "finalizedTranscript (run (map Elapse ds) (on_new_transcription [] s)) =
              finalizedTranscript s"
    by (simp add: run_elapse_nothing_to_commit on_new_transcription_finalized)
  show "finalizedTranscript (run (map Elapse ds) (on_final_transcription [] s)) =
              finalizedTranscript s"
    by (simp add: run_elapse_idle [OF on_final_transcription_timeouts [OF ok]]
          on_final_transcription_finalized)
qed (simp_all add: on_new_transcription_finalized on_new_transcription_inProgress
       on_final_transcription_finalized on_final_transcription_inProgress
       on_new_transcription_timeouts on_final_transcription_timeouts)

theorem empty_payload_appends_nothing_witness:
  "timer_ok (on_new_transcription ''hello'' initial) \<and>
   map captured (timeouts (on_new_transcription [] (on_new_transcription ''hello'' initial))) = [[]] \<and>
   timeouts (on_final_transcription [] (on_new_transcription ''hello'' initial)) = [] \<and>
   finalizedTranscript (run (map Elapse [3000])
     (on_new_transcription [] (on_new_transcription ''hello'' initial))) = [] \<and>
   finalizedTranscript (run (map Elapse [3000])
     (on_final_transcription [] (on_new_transcription ''hello'' initial))) = []"
proof -
  have ok: "timer_ok (on_new_transcription ''hello'' initial)"
    by (simp add: timer_ok_def scenario_defs)
  from empty_payload_appends_nothing [of "on_new_transcription ''hello'' initial"] ok
  show ?thesis by (simp del: list.map add: on_new_transcription_finalized initial_finalized)
qed

text \<open>C6 as stated fails: with "hello" in progress and its timer pending, an empty
  interim event empties the in-progress line and replaces the timer, and an empty final
  event empties the line and cancels the timer.\<close>

theorem empty_payload_counterexample:
  "inProgressTranscript (run [New_transcription ''hello''] initial) = ''hello'' \<and>
   map captured (timeouts (run [New_transcription ''hello''] initial)) = [''hello''] \<and>
   inProgressTranscript (run [New_transcription ''hello'', New_transcription []] initial) = [] \<and>
   map captured (timeouts (run [New_transcription ''hello'', New_transcription []] initial)) = [[]] \<and>
   inProgressTranscript (run [New_transcription ''hello'', Final_transcription []] initial) = [] \<and>
   timeouts (run [New_transcription ''hello'', Final_transcription []] initial) = []"
  by (simp add: scenario_defs)

section \<open>The finalized transcript grows by non-empty lines\<close>

lemma resume_prefix:
  "prefix (finalizedTranscript s) (finalizedTranscript (resume k r s))"
  by (cases "(k, r, s)" rule: resume.cases) (simp_all add: invoke_def suspend_def Let_def)

lemma resume_no_empty_line:
  "\<forall>x \<in> set (finalizedTranscript s). x \<noteq> [] \<Longrightarrow>
   \<forall>x \<in> set (finalizedTranscript (resume k r s)). x \<noteq> []"
  by (cases "(k, r, s)" rule: resume.cases) (simp_all add: invoke_def suspend_def Let_def)

lemma settle_prefix:
  "prefix (finalizedTranscript s) (finalizedTranscript (settle i r s))"
proof (cases "i < length (awaiting s)")
  case True
  with resume_prefix
    [of "s\<lparr>awaiting := take i (awaiting s) @ drop (Suc i) (awaiting s)\<rparr>" "awaiting s ! i" r]
  show ?thesis by (simp add: settle_def)
next
  case False
  then show ?thesis by (simp add: settle_def)
qed

lemma settle_no_empty_line:
  assumes "\<forall>x \<in> set (finalizedTranscript s). x \<noteq> []"
  shows "\<forall>x \<in> set (finalizedTranscript (settle i r s)). x \<noteq> []"
proof (cases "i < length (awaiting s)")
  case True
  with assms resume_no_empty_line
    [of "s\<lparr>awaiting := take i (awaiting s) @ drop (Suc i) (awaiting s)\<rparr>" "awaiting s ! i" r]
  show ?thesis by (simp add: settle_def)
next
  case False
  with assms show ?thesis by (simp add: settle_def)
qed

lemma handlers_finalized:
  "finalizedTranscript (on_click_through_toggled b s) = finalizedTranscript s"
  "finalizedTranscript (handleAskGemini p s) = finalizedTranscript s"
  "finalizedTranscript (handleToggleClickThrough s) = finalizedTranscript s"
  "finalizedTranscript (startDragWithClickThroughHandling s) = finalizedTranscript s"
  "finalizedTranscript (handleToggleRecording s) =
     (if isRecording s then finalizedTranscript s else [])"
  "finalizedTranscript (listen_button_onClick s) =
     (if isRecording s then finalizedTranscript s else [])"
  "finalizedTranscript (panel_listen_onClick s) =
     (if isRecording s then finalizedTranscript s else [])"
  by (simp_all add: on_click_through_toggled_def handleAskGemini_def handleToggleClickThrough_def
        startDragWithClickThroughHandling_def listen_button_onClick_def panel_listen_onClick_def
        handleToggleRecording_def invoke_def suspend_def Let_def)

lemma step_prefix:
  "\<not> reset_is e s \<Longrightarrow> prefix (finalizedTranscript s) (finalizedTranscript (step e s))"
  by (cases e)
     (simp_all add: reset_is_def handlers_finalized settle_prefix elapse_finalized
        on_new_transcription_finalized on_final_transcription_finalized
        stopDragRestoreClickThrough_def)

lemma step_no_empty_line:
  assumes "\<forall>x \<in> set (finalizedTranscript s). x \<noteq> []"
  shows "\<forall>x \<in> set (finalizedTranscript (step e s)). x \<noteq> []"
proof (cases e)
  case (Settle i r)
  with settle_no_empty_line [OF assms] show ?thesis by simp
next
  case (Elapse d)
  with assms show ?thesis by (auto simp: elapse_finalized)
qed (use assms in \<open>simp_all add: handlers_finalized on_new_transcription_finalized
       on_final_transcription_finalized stopDragRestoreClickThrough_def\<close>)

lemma run_Cons: "run (e # es) s = run es (step e s)"
  by (simp add: run_def)

lemma run_no_empty_line:
  "\<forall>x \<in> set (finalizedTranscript s). x \<noteq> [] \<Longrightarrow>
   \<forall>x \<in> set (finalizedTranscript (run es s)). x \<noteq> []"
proof (induction es arbitrary: s)
  case Nil
  then show ?case by (simp add: run_def)
next
  case (Cons e es)
  from Cons.IH [OF step_no_empty_line [OF Cons.prems]] show ?case
    by (simp only: run_Cons)
qed

lemma run_prefix:
  "no_reset es s \<Longrightarrow> prefix (finalizedTranscript s) (finalizedTranscript (run es s))"
proof (induction es arbitrary: s)
  case Nil
  then show ?case by (simp add: run_def)
next
  case (Cons e es)
  from Cons.prems have a: "\<not> reset_is e s" and b: "no_reset es (step e s)" by simp_all
  have "prefix (finalizedTranscript s) (finalizedTranscript (step e s))"
    by (rule step_prefix [OF a])
  also have "prefix (finalizedTranscript (step e s)) (finalizedTranscript (run es (step e s)))"
    by (rule Cons.IH [OF b])
  finally show ?case by (simp only: run_Cons)
qed

text \<open>
  C8. Every event of the component keeps the finalized transcript free of empty strings:
  the interim and final listeners, the pause timer's callback, the start of a session,
  the stop of a session and every other handler and settled call, one at a time or in
  any sequence and interleaving. Every event other than the start of a session only
  appends to the finalized transcript: the transcript before is a prefix of the one
  after, so between the start of a session and its end no entry is removed or reordered.
\<close>

theorem finalized_no_empty_line_append_only:
  "([] \<notin> set (finalizedTranscript s) \<longrightarrow>
      [] \<notin> set (finalizedTranscript (step e s)) \<and>
      [] \<notin> set (finalizedTranscript (run es s))) \<and>
   (\<not> reset_is e s \<longrightarrow> prefix (finalizedTranscript s) (finalizedTranscript (step e s))) \<and>
   (no_reset es s \<longrightarrow> prefix (finalizedTranscript s) (finalizedTranscript (run es s)))"
proof (intro conjI impI)
  assume "[] \<notin> set (finalizedTranscript s)"
  then have clean: "\<forall>x \<in> set (finalizedTranscript s). x \<noteq> []" by auto
  from step_no_empty_line [OF clean, of e]
  show "[] \<notin> set (finalizedTranscript (step e s))" by auto
  from run_no_empty_line [OF clean, of es]
  show "[] \<notin> set (finalizedTranscript (run es s))" by auto
next
  assume "\<not> reset_is e s"
  then show "prefix (finalizedTranscript s) (finalizedTranscript (step e s))"
    by (rule step_prefix)
next
  assume "no_reset es s"
  then show "prefix (finalizedTranscript s) (finalizedTranscript (run es s))"
    by (rule run_prefix)
qed

theorem finalized_no_empty_line_append_only_witness:
  "[] \<notin> set (finalizedTranscript (run start_session initial)) \<and>
   \<not> reset_is (Final_transcription ''a'') (run start_session initial) \<and>
   no_reset busy_session (run start_session initial) \<and>
   finalizedTranscript (run busy_session (run start_session initial)) =
     [''the quick brown fox'', ''jumps'', ''over''] \<and>
   [] \<notin> set (finalizedTranscript (run busy_session (run start_session initial))) \<and>
   prefix (finalizedTranscript (run start_session initial))
     (finalizedTranscript (run busy_session (run start_session initial)))"
proof -
  have a: "[] \<notin> set (finalizedTranscript (run start_session initial))"
    by (simp add: scenario_defs)
  have b: "\<not> reset_is (Final_transcription ''a'') (run start_session initial)"
    by (simp add: reset_is_def)
  have c: "no_reset busy_session (run start_session initial)"
    by (simp add: busy_session_def reset_is_def scenario_defs)
  have d: "finalizedTranscript (run busy_session (run start_session initial)) =
     [''the quick brown fox'', ''jumps'', ''over'']"
    by (simp add: busy_session_def scenario_defs)
  from finalized_no_empty_line_append_only
    [of "run start_session initial" "Final_transcription ''a''" busy_session] a b c d
  show ?thesis by blast
qed

section \<open>The drag gesture\<close>

text \<open>
  C9. The claim: mouse down followed by mouse up restores the click-through flag to its
  value before the gesture, by saving it in \<^verbatim>\<open>prevClickThroughRef\<close>, making the window
  interactive for the drag and restoring it afterwards, and mouse up always sets the
  ref to null as its last step. In the code the ref is never declared, so neither handler
  gets past its first use of it: from the initial, click-through window, mouse down
  changes no cell and asks nothing of the backend, so the window is never made
  interactive; mouse up ends with a \<^verbatim>\<open>ReferenceError\<close> instead of clearing anything;
  and the whole gesture leaves the state as it was.
\<close>

theorem drag_gesture_changes_nothing:
  "clickThrough initial \<and>
   startDragWithClickThroughHandling initial = initial \<and>
   invoked (startDragWithClickThroughHandling initial) = [] \<and>
   stopDragRestoreClickThrough (startDragWithClickThroughHandling initial) =
     Inl (ReferenceError ''prevClickThroughRef'') \<and>
   run [Drag_start, Drag_stop] initial = initial"
  by (simp add: run_def startDragWithClickThroughHandling_def stopDragRestoreClickThrough_def
        initial_def)

section \<open>Handlers whose backend call settles at once\<close>

lemmas handler_defs = uninterrupted_def settle_def invoke_def suspend_def Let_def
  handleToggleRecording_def handleAskGemini_def handleToggleClickThrough_def

section \<open>The AI response across sessions\<close>

text \<open>
  C10. A click on Listen while not recording empties the AI response, at once and
  whatever the resource lookup and the backend then answer; a click while recording
  leaves the AI response as it was, at the click and when the stop call settles; and no
  continuation of the recording handler writes the AI response.
\<close>

theorem start_clears_ai_response:
  "(\<not> isRecording s \<longrightarrow>
      aiResponse (handleToggleRecording s) = [] \<and>
      aiResponse (uninterrupted handleToggleRecording [rp, ri] s) = []) \<and>
   (isRecording s \<longrightarrow>
      aiResponse (handleToggleRecording s) = aiResponse s \<and>
      aiResponse (uninterrupted handleToggleRecording [r] s) = aiResponse s) \<and>
   aiResponse (resume Await_getResourcePaths r s) = aiResponse s \<and>
   aiResponse (resume Await_start_live_transcription r s) = aiResponse s \<and>
   aiResponse (resume (Await_stop_live_transcription c) r s) = aiResponse s"
  by (cases rp; cases ri; cases r) (simp_all add: handler_defs)

theorem start_clears_ai_response_witness:
  "\<not> isRecording (run asked initial) \<and>
   aiResponse (run asked initial) = ''a monoid'' \<and>
   aiResponse (handleToggleRecording (run asked initial)) = [] \<and>
   aiResponse (uninterrupted handleToggleRecording [Resolved [], Rejected ''no microphone'']
     (run asked initial)) = [] \<and>
   isRecording (run (start_session @ asked) initial) \<and>
   aiResponse (run (start_session @ asked) initial) = ''a monoid'' \<and>
   aiResponse (uninterrupted handleToggleRecording [Resolved []]
     (run (start_session @ asked) initial)) = ''a monoid''"
proof -
  have a: "\<not> isRecording (run asked initial)"
    and b: "aiResponse (run asked initial) = ''a monoid''"
    and c: "isRecording (run (start_session @ asked) initial)"
    and d: "aiResponse (run (start_session @ asked) initial) = ''a monoid''"
    by (simp_all add: asked_def scenario_defs handleAskGemini_def)
  from start_clears_ai_response
      [of "run asked initial" "Resolved []" "Rejected ''no microphone''"]
    start_clears_ai_response [of "run (start_session @ asked) initial" _ _ "Resolved []"]
    a b c d
  show ?thesis by simp
qed

section \<open>Rejected backend calls\<close>

text \<open>
  C7, as amended. A rejected call is never retried: the handler invokes its command
  once and leaves no call in flight. What else happens differs by handler. Stop: the
  status becomes "Error: " followed by the error and nothing else changes. Start: the
  status becomes the error message, recording stays off, and the transcript and the AI
  response, emptied before the call, stay empty (when the resource lookup is rejected no
  command is invoked at all). AI query: the error message goes to the AI response, the
  AI tab and the widget are opened, and the status is "Ready.". Click-through toggle: no
  state cell changes, the status included.
\<close>

theorem backend_failure_effects:
  "(isRecording s \<longrightarrow>
      uninterrupted handleToggleRecording [Rejected e] s =
        s\<lparr>status := error_status e, invoked := invoked s @ [Stop_live_transcription]\<rparr>) \<and>
   (\<not> isRecording s \<longrightarrow>
      uninterrupted handleToggleRecording [Rejected e] s =
        s\<lparr>status := error_status e, finalizedTranscript := [], inProgressTranscript := [],
          aiResponse := []\<rparr> \<and>
      uninterrupted handleToggleRecording [Resolved v, Rejected e] s =
        s\<lparr>status := error_status e, finalizedTranscript := [], inProgressTranscript := [],
          aiResponse := [], invoked := invoked s @ [Start_live_transcription]\<rparr>) \<and>
   (prompt \<noteq> [] \<longrightarrow>
      uninterrupted (handleAskGemini prompt) [Rejected e] s =
        s\<lparr>aiResponse := error_status e, activeTab := ''ai'', status := ''Ready.'',
          widgetOpen := True,
          invoked := invoked s @ [Call_gemini_api (prompt @ gemini_format_hint)]\<rparr>) \<and>
   uninterrupted handleToggleClickThrough [Rejected e] s =
     s\<lparr>invoked := invoked s @ [Toggle_clickthrough (\<not> clickThrough s)]\<rparr>"
  by (simp add: handler_defs)

theorem backend_failure_effects_witness:
  "isRecording (run start_session initial) \<and>
   status (uninterrupted handleToggleRecording [Rejected ''busy''] (run start_session initial)) =
     ''Error: busy'' \<and>
   isRecording (uninterrupted handleToggleRecording [Rejected ''busy''] (run start_session initial)) \<and>
   \<not> isRecording dictated \<and>
   status (uninterrupted handleToggleRecording [Resolved [], Rejected ''busy''] dictated) =
     ''Error: busy'' \<and>
   ''why'' \<noteq> [] \<and>
   aiResponse (uninterrupted (handleAskGemini ''why'') [Rejected ''offline''] dictated) =
     ''Error: offline'' \<and>
   invoked (uninterrupted handleToggleClickThrough [Rejected ''denied''] dictated) =
     invoked dictated @ [Toggle_clickthrough False]"
proof -
  have a: "isRecording (run start_session initial)"
    and b: "\<not> isRecording dictated" and c: "clickThrough dictated"
    by (simp_all add: dictated_def scenario_defs)
  from backend_failure_effects [of "run start_session initial" "''busy''"]
    backend_failure_effects [of dictated "''busy''" "[]"]
    backend_failure_effects [of dictated "''offline''" _ "''why''"]
    backend_failure_effects [of dictated "''denied''"]
    a b c
  show ?thesis by (simp add: error_status_def)
qed

text \<open>C7 as stated fails: a rejected start leaves the transcript emptied, a rejected AI
  query leaves the status "Ready.", and a rejected toggle leaves the same state whatever
  the error, with the status as it was.\<close>

theorem backend_failure_counterexample:
  "finalizedTranscript dictated = [''first line''] \<and>
   status dictated = ''Ready.'' \<and>
   finalizedTranscript
     (uninterrupted handleToggleRecording [Resolved [], Rejected ''busy''] dictated) = [] \<and>
   status (uninterrupted (handleAskGemini ''why'') [Rejected ''offline''] dictated) = ''Ready.'' \<and>
   status (uninterrupted handleToggleClickThrough [Rejected ''denied''] dictated) = ''Ready.'' \<and>
   uninterrupted handleToggleClickThrough [Rejected ''denied''] dictated =
     uninterrupted handleToggleClickThrough [Rejected ''some other error''] dictated"
  by (simp add: dictated_def scenario_defs handler_defs)

end
